theory Spec2Isabelle
  imports Complex_Main "HOL-Library.AList" "HOL-Library.FSet"
begin

section \<open>Channel maps\<close>

text \<open>
  A JavaScript object or Python dict from morph names to numbers is an association list
  in insertion order. Numbers are IEEE doubles in the source; they are modelled as
  reals, so rounding, NaN and the infinities are outside the model.
  Assignment \<open>obj[k] = v\<close> is \<open>AList.update k v obj\<close>: an existing key keeps its place, a
  new key is appended. The spread \<open>{...obj}\<close> copies, which is the identity on values.
\<close>

type_synonym blendshapes = "(string \<times> real) list"

text \<open>
  The idiom \<open>obj[morph] || 0\<close>: a missing key reads as 0. A name that the object inherits from
  \<open>Object.prototype\<close> reads as a non-number in JavaScript; such reads are outside the model.
\<close>

definition valueOf :: "blendshapes \<Rightarrow> string \<Rightarrow> real" where
  "valueOf obj morph = (case map_of obj morph of None \<Rightarrow> 0 | Some v \<Rightarrow> v)"

definition keys :: "blendshapes \<Rightarrow> string list" where
  "keys obj = map fst obj"

text \<open>
  \<open>obj[key] = v\<close> on a JavaScript object. The name \<open>__proto__\<close> is special: where the object
  has no own property of that name, the assignment reaches the setter inherited from
  \<open>Object.prototype\<close>, which ignores a number, and nothing is stored. An own property of
  that name (one made by \<open>JSON.parse\<close> and kept by a spread) is overwritten like any other.
\<close>

definition assign :: "string \<Rightarrow> real \<Rightarrow> blendshapes \<Rightarrow> blendshapes" where
  "assign key v obj =
     (if key = ''__proto__'' \<and> map_of obj key = None then obj else AList.update key v obj)"

text \<open>\<open>for (const [morph, value] of Object.entries(src)) dst[morph] = value\<close>\<close>

definition assignAll :: "blendshapes \<Rightarrow> blendshapes \<Rightarrow> blendshapes" where
  "assignAll src dst = fold (\<lambda>(morph, v) obj. assign morph v obj) src dst"

section \<open>The delta compressor (DeltaCompressor.compress)\<close>

text \<open>
  The two loops of \<open>compress\<close>, in order. The result is the dict \<open>delta\<close>; its
  MessagePack serialisation is not modelled.
\<close>

definition findChanges :: "blendshapes \<Rightarrow> blendshapes \<Rightarrow> blendshapes \<Rightarrow> blendshapes" where
  "findChanges current previous delta =
     fold (\<lambda>(key, v) d.
             if (case map_of previous key of None \<Rightarrow> True
                 | Some p \<Rightarrow> \<bar>v - p\<bar> > 1 / 1000)
             then AList.update key v d else d)
          current delta"

definition removeZeros :: "blendshapes \<Rightarrow> blendshapes \<Rightarrow> blendshapes \<Rightarrow> blendshapes" where
  "removeZeros current previous delta =
     fold (\<lambda>(key, v) d.
             if map_of current key = None \<and> v > 1 / 1000
             then AList.update key 0 d else d)
          previous delta"

definition compress :: "blendshapes \<Rightarrow> blendshapes \<Rightarrow> blendshapes" where
  "compress current previous = removeZeros current previous (findChanges current previous [])"

section \<open>The animation client (OptimizedFacialAnimationClient)\<close>

text \<open>
  The fields of the client that message handling and interpolation read or write.
  \<open>performance.now()\<close> is an argument \<open>now\<close> of each operation. The callbacks
  (\<open>onBlendshapeUpdate\<close> and the others) receive \<open>currentBlendshapes\<close> and do not write
  the client's state; they are left out.
\<close>

record client =
  enableInterpolation :: bool
  currentBlendshapes :: blendshapes
  targetBlendshapes :: blendshapes
  keyframeBlendshapes :: blendshapes
  interpolationActive :: bool
  interpolationStartTime :: real
  interpolationDuration :: real
  interpolationStartValues :: blendshapes
  deltasApplied :: nat
  keyframesReceived :: nat

text \<open>
  The constructor. \<open>config.enableInterpolation\<close> defaults to true and can be overridden
  by the options. \<open>interpolationStartValues\<close> is not assigned by the constructor; it is
  read only while \<open>interpolationActive\<close> holds, which \<open>startInterpolation\<close> alone sets.
\<close>

definition newClient :: "bool \<Rightarrow> client" where
  "newClient enable =
     \<lparr> enableInterpolation = enable,
       currentBlendshapes = [],
       targetBlendshapes = [],
       keyframeBlendshapes = [],
       interpolationActive = False,
       interpolationStartTime = 0,
       interpolationDuration = 33,
       interpolationStartValues = [],
       deltasApplied = 0,
       keyframesReceived = 0 \<rparr>"

text \<open>
  The \<open>compression\<close> member of a \<open>blendshape_update\<close> message, with its \<open>type\<close> and \<open>data\<close>;
  a message without it is \<open>None\<close>. The payload is taken to carry a \<open>data\<close> object.
\<close>

record compression =
  ctype :: string
  cdata :: blendshapes

definition startInterpolation :: "real \<Rightarrow> client \<Rightarrow> client" where
  "startInterpolation now st =
     st\<lparr> interpolationActive := True,
         interpolationStartTime := now,
         interpolationStartValues := currentBlendshapes st \<rparr>"

definition applyCompression :: "compression \<Rightarrow> client \<Rightarrow> client" where
  "applyCompression c st =
     (if ctype c = ''keyframe'' then
        st\<lparr> keyframeBlendshapes := cdata c,
            targetBlendshapes := cdata c,
            keyframesReceived := keyframesReceived st + 1 \<rparr>
      else if ctype c = ''delta'' then
        st\<lparr> targetBlendshapes := assignAll (cdata c) (keyframeBlendshapes st),
            deltasApplied := deltasApplied st + 1 \<rparr>
      else st)"

definition handleBlendshapeUpdate :: "real \<Rightarrow> compression option \<Rightarrow> client \<Rightarrow> client" where
  "handleBlendshapeUpdate now msg st =
     (case msg of
        None \<Rightarrow> st
      | Some c \<Rightarrow>
          (let st1 = applyCompression c st
           in if enableInterpolation st1 then startInterpolation now st1
              else st1\<lparr> currentBlendshapes := targetBlendshapes st1 \<rparr>))"

text \<open>Cubic ease-in-out, as \<open>updateInterpolation\<close> writes it.\<close>

definition easeInOut :: "real \<Rightarrow> real" where
  "easeInOut t =
     (if t < 5 / 10 then 4 * t * t * t
      else (let p = 2 * t - 2 in 1 + p * p * p / 2))"

text \<open>
  \<open>Math.min(elapsed / duration, 1.0)\<close>. A zero duration gives NaN or Infinity in JavaScript
  and 0 in HOL; every statement below that depends on the quotient assumes a positive
  duration (the constructor sets 33 and nothing assigns the field again).
\<close>

definition progress :: "real \<Rightarrow> client \<Rightarrow> real" where
  "progress now st =
     min ((now - interpolationStartTime st) / interpolationDuration st) 1"

text \<open>
  The loop over \<open>allMorphs\<close>: a JavaScript Set keeps the first occurrence of each key. The
  name \<open>__proto__\<close> is outside the model of this loop: JavaScript reads it through
  \<open>Object.prototype\<close> unless it is an own property, which gives no number, and does not
  store it in \<open>interpolated\<close>.
\<close>

definition allMorphs :: "client \<Rightarrow> string list" where
  "allMorphs st =
     rev (remdups (rev (keys (interpolationStartValues st) @ keys (targetBlendshapes st))))"

definition interpolated :: "real \<Rightarrow> client \<Rightarrow> blendshapes" where
  "interpolated now st =
     map (\<lambda>morph.
            let startValue = valueOf (interpolationStartValues st) morph;
                targetValue = valueOf (targetBlendshapes st) morph
            in (morph, startValue + (targetValue - startValue) * easeInOut (progress now st)))
         (allMorphs st)"

definition updateInterpolation :: "real \<Rightarrow> client \<Rightarrow> client" where
  "updateInterpolation now st =
     (if \<not> interpolationActive st then st
      else
        (let st1 = st\<lparr> currentBlendshapes := interpolated now st \<rparr>
         in if progress now st \<ge> 1
            then st1\<lparr> interpolationActive := False,
                     currentBlendshapes := targetBlendshapes st \<rparr>
            else st1))"

text \<open>The animation loop calls \<open>updateInterpolation\<close> once per frame.\<close>

definition animationFrames :: "real list \<Rightarrow> client \<Rightarrow> client" where
  "animationFrames frameTimes st = fold updateInterpolation frameTimes st"

definition setInterpolationEnabled :: "bool \<Rightarrow> client \<Rightarrow> client" where
  "setInterpolationEnabled enabled st = st\<lparr> enableInterpolation := enabled \<rparr>"

text \<open>
  What happens to a client over its life: messages arrive, frames are drawn, and the owner
  may switch interpolation on or off. A history is the list of these events in order.
\<close>

datatype event =
  Message real "compression option"
| Frame real
| SetInterpolationEnabled bool

fun step :: "event \<Rightarrow> client \<Rightarrow> client" where
  "step (Message now msg) st = handleBlendshapeUpdate now msg st"
| "step (Frame now) st = updateInterpolation now st"
| "step (SetInterpolationEnabled enabled) st = setInterpolationEnabled enabled st"

definition run :: "event list \<Rightarrow> client \<Rightarrow> client" where
  "run history st = fold step history st"

fun isKeyframe :: "event \<Rightarrow> bool" where
  "isKeyframe (Message now (Some c)) = (ctype c = ''keyframe'')"
| "isKeyframe (Message now None) = False"
| "isKeyframe (Frame now) = False"
| "isKeyframe (SetInterpolationEnabled enabled) = False"

section \<open>The morph system (OptimizedMorphSystem)\<close>

text \<open>
  A JavaScript \<open>Set\<close> of names is a finite set; \<open>morphStates\<close> is a map. Of \<open>morphMap\<close>
  (name to mesh bindings) only the key set is kept: \<open>setMorph\<close> asks \<open>has\<close> and nothing
  else. Of each quality preset the fields the scheduler reads are kept.
\<close>

datatype error = TypeError

record preset =
  morphUpdateThreshold :: real
  maxActiveMorphs :: nat
  lodDistances :: "real list"
  updateFrequency :: nat

definition qualityPresets :: "string \<Rightarrow> preset option" where
  "qualityPresets q =
     (if q = ''low'' then
        Some \<lparr> morphUpdateThreshold = 5 / 100, maxActiveMorphs = 50,
               lodDistances = [2, 5, 10], updateFrequency = 3 \<rparr>
      else if q = ''medium'' then
        Some \<lparr> morphUpdateThreshold = 1 / 100, maxActiveMorphs = 100,
               lodDistances = [3, 8, 15], updateFrequency = 2 \<rparr>
      else if q = ''high'' then
        Some \<lparr> morphUpdateThreshold = 1 / 1000, maxActiveMorphs = 266,
               lodDistances = [5, 12, 20], updateFrequency = 1 \<rparr>
      else if q = ''ultra'' then
        Some \<lparr> morphUpdateThreshold = 1 / 10000, maxActiveMorphs = 500,
               lodDistances = [10, 20, 30], updateFrequency = 1 \<rparr>
      else None)"

record morph_config =
  lodEnabled :: bool
  selectiveUpdates :: bool
  quality :: string
  priorityMorphs :: "string fset"

record morph_system =
  config :: morph_config
  morphMap :: "string fset"
  morphStates :: "string \<rightharpoonup> real"
  dirtyMorphs :: "string fset"
  activeMorphs :: "string fset"
  lodLevel :: nat
  frameCounter :: nat
  skippedUpdates :: nat
  activeMorphCount :: nat

definition defaultConfig :: morph_config where
  "defaultConfig =
     \<lparr> lodEnabled = True,
       selectiveUpdates = True,
       quality = ''medium'',
       priorityMorphs =
         {| ''V_Open'', ''V_AA'', ''V_EE'', ''V_OH'', ''V_U'',
            ''Eye_Blink_L'', ''Eye_Blink_R'',
            ''Mouth_Smile_L'', ''Mouth_Smile_R'' |} \<rparr>"

text \<open>The constructor followed by \<open>initialize\<close> on meshes whose morph names are \<open>names\<close>.\<close>

definition newMorphSystem :: "morph_config \<Rightarrow> string fset \<Rightarrow> morph_system" where
  "newMorphSystem cfg names =
     \<lparr> config = cfg,
       morphMap = names,
       morphStates = (\<lambda>morphName. if morphName |\<in>| names then Some 0 else None),
       dirtyMorphs = {||},
       activeMorphs = {||},
       lodLevel = 0,
       frameCounter = 0,
       skippedUpdates = 0,
       activeMorphCount = 0 \<rparr>"

definition skipUpdate :: "morph_system \<Rightarrow> morph_system" where
  "skipUpdate s = s\<lparr> skippedUpdates := skippedUpdates s + 1 \<rparr>"

definition storeMorph :: "string \<Rightarrow> real \<Rightarrow> morph_system \<Rightarrow> morph_system" where
  "storeMorph morphName v s =
     s\<lparr> morphStates := (morphStates s)(morphName \<mapsto> v),
        dirtyMorphs := finsert morphName (dirtyMorphs s),
        activeMorphs :=
          (if v > 1 / 1000 then finsert morphName (activeMorphs s)
           else activeMorphs s |-| {|morphName|}) \<rparr>"

text \<open>\<open>this.morphStates.get(morphName) || 0\<close>\<close>

definition currentValueOf :: "morph_system \<Rightarrow> string \<Rightarrow> real" where
  "currentValueOf s morphName = (case morphStates s morphName of None \<Rightarrow> 0 | Some c \<Rightarrow> c)"

text \<open>
  \<open>setMorph\<close>. The preset is looked up by the configured quality name; reading a field of
  an undefined preset throws a TypeError, which happens only where the conditions to
  its left in the \<open>&&\<close> chain hold.
\<close>

definition checkActiveLimit ::
  "string \<Rightarrow> real \<Rightarrow> bool \<Rightarrow> preset option \<Rightarrow> morph_system \<Rightarrow> error + (bool \<times> morph_system)" where
  "checkActiveLimit morphName v force pr s =
     (if \<not> force \<and> v > 0 \<and> morphName |\<notin>| activeMorphs s then
        (case pr of
           None \<Rightarrow> Inl TypeError
         | Some p \<Rightarrow>
             if fcard (activeMorphs s) \<ge> maxActiveMorphs p
                \<and> morphName |\<notin>| priorityMorphs (config s)
             then Inr (False, skipUpdate s)
             else Inr (True, storeMorph morphName v s))
      else Inr (True, storeMorph morphName v s))"

definition setMorph ::
  "string \<Rightarrow> real \<Rightarrow> bool \<Rightarrow> morph_system \<Rightarrow> error + (bool \<times> morph_system)" where
  "setMorph morphName v force s =
     (if morphName |\<notin>| morphMap s then Inr (False, s)
      else
        (let pr = qualityPresets (quality (config s));
             currentValue = currentValueOf s morphName;
             delta = \<bar>v - currentValue\<bar>
         in if \<not> force \<and> selectiveUpdates (config s) then
              (case pr of
                 None \<Rightarrow> Inl TypeError
               | Some p \<Rightarrow>
                   if delta < morphUpdateThreshold p then Inr (False, skipUpdate s)
                   else checkActiveLimit morphName v force pr s)
            else checkActiveLimit morphName v force pr s))"

text \<open>
  \<open>updateMorphs\<close>: the entries are sorted stably, priority names first, then each is
  passed to \<open>setMorph\<close>; an exception ends the loop.
\<close>

definition sortedEntries :: "morph_config \<Rightarrow> blendshapes \<Rightarrow> blendshapes" where
  "sortedEntries cfg morphData =
     sort_key (\<lambda>(morphName, v). if morphName |\<in>| priorityMorphs cfg then 0 else (1::nat))
              morphData"

fun setEach ::
  "blendshapes \<Rightarrow> string list \<Rightarrow> morph_system \<Rightarrow> error + (string list \<times> morph_system)" where
  "setEach [] updates s = Inr (updates, s)"
| "setEach ((morphName, v) # rest) updates s =
     (case setMorph morphName v False s of
        Inl e \<Rightarrow> Inl e
      | Inr (accepted, s') \<Rightarrow>
          setEach rest (if accepted then updates @ [morphName] else updates) s')"

definition updateMorphs :: "blendshapes \<Rightarrow> morph_system \<Rightarrow> error + (nat \<times> morph_system)" where
  "updateMorphs morphData s =
     (case setEach (sortedEntries (config s) morphData) [] s of
        Inl e \<Rightarrow> Inl e
      | Inr (updates, s') \<Rightarrow>
          Inr (length updates, s'\<lparr> activeMorphCount := fcard (activeMorphs s') \<rparr>))"

text \<open>\<open>x % 0\<close> is NaN in JavaScript, and \<open>NaN !== 0\<close> holds.\<close>

definition shouldUpdateMorph :: "string \<Rightarrow> preset \<Rightarrow> morph_system \<Rightarrow> bool" where
  "shouldUpdateMorph morphName p s =
     (if morphName |\<in>| priorityMorphs (config s) then True
      else if updateFrequency p = 0 \<or> frameCounter s mod updateFrequency p \<noteq> 0 then False
      else if lodEnabled (config s) \<and> lodLevel s > 1
        then morphName |\<in>| priorityMorphs (config s)
      else True)"

definition setQuality :: "string \<Rightarrow> morph_system \<Rightarrow> morph_system" where
  "setQuality q s =
     (case qualityPresets q of
        None \<Rightarrow> s
      | Some p \<Rightarrow> s\<lparr> config := (config s)\<lparr> quality := q \<rparr> \<rparr>)"

section \<open>Dynamic quality adjustment\<close>

text \<open>
  \<open>PerformanceMonitor.getReport\<close> averages the fps history when history is tracked and not
  empty; otherwise \<open>report.averages.fps\<close> is undefined, and both comparisons of the
  adjustment callback are false.
\<close>

definition averageFps :: "bool \<Rightarrow> real list \<Rightarrow> real option" where
  "averageFps trackHistory history =
     (if trackHistory \<and> history \<noteq> []
      then Some (sum_list history / real (length history)) else None)"

definition adjustQuality :: "real option \<Rightarrow> morph_system \<Rightarrow> morph_system" where
  "adjustQuality avgFps s =
     (case avgFps of
        None \<Rightarrow> s
      | Some fps \<Rightarrow>
          if fps < 30 \<and> quality (config s) \<noteq> ''low'' then setQuality ''low'' s
          else if fps > 55 \<and> quality (config s) = ''low'' then setQuality ''medium'' s
          else s)"

section \<open>The specification's formulas\<close>

text \<open>
  Definitions that follow the specification's words, for comparison with the code:
  the wire epsilon and the delta inclusion rule \<open>|current - reference| > epsilon\<close>, the
  clamp and the ease-in-out cubic of \<open>sample\<close>, and the order of the quality tiers
  (Low, Medium, High, Ultra).
\<close>

definition spec_epsilon :: real where
  "spec_epsilon = 1 / 1000"

definition spec_differs :: "blendshapes \<Rightarrow> blendshapes \<Rightarrow> string \<Rightarrow> bool" where
  "spec_differs current reference k = (\<bar>valueOf current k - valueOf reference k\<bar> > spec_epsilon)"



definition spec_tier :: "string \<Rightarrow> nat" where
  "spec_tier q =
     (if q = ''low'' then 0 else if q = ''medium'' then 1 else if q = ''high'' then 2 else 3)"

section \<open>Messages used in the examples\<close>

definition keyframe :: "blendshapes \<Rightarrow> compression option" where
  "keyframe d = Some \<lparr> ctype = ''keyframe'', cdata = d \<rparr>"

definition delta :: "blendshapes \<Rightarrow> compression option" where
  "delta d = Some \<lparr> ctype = ''delta'', cdata = d \<rparr>"

text \<open>A client that received the keyframe \<open>{A: 1}\<close> at time 0, interpolation enabled.\<close>

definition rising :: client where
  "rising = handleBlendshapeUpdate 0 (keyframe [(''A'', 1)]) (newClient True)"

text \<open>A client that received the keyframe \<open>{A: 0.8}\<close> at time 0 and nothing after it.\<close>

definition held :: client where
  "held = handleBlendshapeUpdate 0 (keyframe [(''A'', 4 / 5)]) (newClient True)"


text \<open>A morph system with the default configuration over one viseme and one brow morph.\<close>

definition lipsync :: morph_system where
  "lipsync = newMorphSystem defaultConfig {|''V_Open'', ''Brow_Up''|}"

text \<open>
  A morph system on the low preset whose fifty active morphs are all non-priority ones, so
  that the active set has reached \<open>maxActiveMorphs = 50\<close>; the viseme and the brow morph are
  registered and at rest.
\<close>

definition ambient :: "nat \<Rightarrow> string" where
  "ambient i = replicate i CHR ''x''"

definition ambientMorphs :: "string fset" where
  "ambientMorphs = fset_of_list (map ambient [1..<51])"

definition crowded :: morph_system where
  "crowded =
     \<lparr> config = defaultConfig\<lparr> quality := ''low'' \<rparr>,
       morphMap = finsert ''V_Open'' (finsert ''Brow_Up'' ambientMorphs),
       morphStates =
         (\<lambda>morphName.
            if morphName = ''V_Open'' \<or> morphName = ''Brow_Up'' then Some 0
            else if morphName |\<in>| ambientMorphs then Some 1 else None),
       dirtyMorphs = {||},
       activeMorphs = ambientMorphs,
       lodLevel = 0,
       frameCounter = 0,
       skippedUpdates = 0,
       activeMorphCount = 50 \<rparr>"

section \<open>Channel maps: lookups\<close>

lemma valueOf_Nil: "valueOf [] m = 0"
  by (simp add: valueOf_def)

lemma valueOf_Cons: "valueOf ((k, v) # obj) m = (if k = m then v else valueOf obj m)"
  by (simp add: valueOf_def)

lemmas valueOf_simps = valueOf_Nil valueOf_Cons

lemma map_of_assign:
  "map_of (assign key v obj) k =
     (if key = ''__proto__'' \<and> map_of obj key = None then map_of obj k
      else if k = key then Some v else map_of obj k)"
  by (auto simp: assign_def update_conv')

lemma map_of_assignAll:
  "map_of (assignAll src dst) k =
     (if k = ''__proto__'' \<and> map_of dst k = None then None
      else (map_of dst ++ map_of (rev src)) k)"
  unfolding assignAll_def
proof (induction src arbitrary: dst)
  case Nil
  show ?case by auto
next
  case (Cons a src)
  obtain key v where a: "a = (key, v)" by (cases a)
  show ?case
    by (auto simp: a Cons.IH map_of_assign map_add_def split: option.splits)
qed

lemma valueOf_absent: "m \<notin> set (keys obj) \<Longrightarrow> valueOf obj m = 0"
  by (force simp: valueOf_def keys_def split: option.splits dest: map_of_SomeD)

lemma set_allMorphs:
  "set (allMorphs st) = set (keys (interpolationStartValues st)) \<union> set (keys (targetBlendshapes st))"
  by (auto simp: allMorphs_def)

lemma distinct_allMorphs: "distinct (allMorphs st)"
  by (simp add: allMorphs_def)

lemma map_of_tabulate:
  "map_of (map (\<lambda>m. (m, f m)) ks) m = (if m \<in> set ks then Some (f m) else None)"
  by (induction ks) auto

lemma map_of_interpolated:
  "map_of (interpolated now st) m =
     (if m \<in> set (allMorphs st)
      then Some (valueOf (interpolationStartValues st) m
                 + (valueOf (targetBlendshapes st) m - valueOf (interpolationStartValues st) m)
                   * easeInOut (progress now st))
      else None)"
  by (simp add: interpolated_def Let_def map_of_tabulate)


lemma valueOf_interpolated:
  "valueOf (interpolated now st) m =
     valueOf (interpolationStartValues st) m
     + (valueOf (targetBlendshapes st) m - valueOf (interpolationStartValues st) m)
       * easeInOut (progress now st)"
proof (cases "m \<in> set (allMorphs st)")
  case True
  then show ?thesis by (simp add: valueOf_def map_of_interpolated)
next
  case False
  then have "valueOf (interpolationStartValues st) m = 0" "valueOf (targetBlendshapes st) m = 0"
    by (simp_all add: set_allMorphs valueOf_absent)
  with False show ?thesis by (simp add: valueOf_def map_of_interpolated)
qed

lemma easeInOut_0: "easeInOut 0 = 0"
  by (simp add: easeInOut_def)

lemma easeInOut_1: "easeInOut 1 = 1"
  by (simp add: easeInOut_def)

lemma easeInOut_cube:
  "easeInOut t = (if t < 1 / 2 then 4 * t ^ 3 else 1 + (2 * t - 2) ^ 3 / 2)"
  by (simp add: easeInOut_def power3_eq_cube Let_def)


lemma cube_mono: "(a::real) \<le> b \<Longrightarrow> a ^ 3 \<le> b ^ 3"
  by (rule power_mono_odd) simp_all

lemma easeInOut_mono:
  assumes "s \<le> t"
  shows "easeInOut s \<le> easeInOut t"
proof -
  consider "t < 1 / 2" | "1 / 2 \<le> s" | "s < 1 / 2" "1 / 2 \<le> t" using assms by linarith
  then show ?thesis
  proof cases
    case 1
    then have "s < 1 / 2" using assms by simp
    with 1 cube_mono [OF assms] show ?thesis by (simp add: easeInOut_cube)
  next
    case 2
    then have "1 / 2 \<le> t" using assms by simp
    moreover have "(2 * s - 2) ^ 3 \<le> (2 * t - 2) ^ 3" using assms by (intro cube_mono) simp
    ultimately show ?thesis using 2 by (simp add: easeInOut_cube)
  next
    case 3
    have "s ^ 3 \<le> (1 / 2) ^ 3" using 3 by (intro cube_mono) simp
    then have a: "4 * s ^ 3 \<le> 1 / 2" by (simp add: power3_eq_cube)
    have "(- 1) ^ 3 \<le> (2 * t - 2) ^ 3" using 3 by (intro cube_mono) simp
    then have b: "1 / 2 \<le> 1 + (2 * t - 2) ^ 3 / 2" by simp
    from a b 3 show ?thesis by (simp add: easeInOut_cube)
  qed
qed

lemma easeInOut_range:
  assumes "0 \<le> t" "t \<le> 1"
  shows "0 \<le> easeInOut t" "easeInOut t \<le> 1"
  using easeInOut_mono [OF assms(1)] easeInOut_mono [OF assms(2)]
  by (simp_all add: easeInOut_0 easeInOut_1)

lemma progress_le_1: "progress now st \<le> 1"
  by (simp add: progress_def)

lemma progress_mono:
  "0 < interpolationDuration st \<Longrightarrow> t1 \<le> t2 \<Longrightarrow> progress t1 st \<le> progress t2 st"
  by (simp add: progress_def divide_right_mono min.coboundedI1)

lemma progress_nonneg:
  "0 < interpolationDuration st \<Longrightarrow> interpolationStartTime st \<le> now \<Longrightarrow> 0 \<le> progress now st"
  by (simp add: progress_def)

lemma progress_done:
  "0 < interpolationDuration st \<Longrightarrow>
   interpolationStartTime st + interpolationDuration st \<le> now \<Longrightarrow> progress now st = 1"
  by (simp add: progress_def min_def pos_le_divide_eq)



lemma valueOf_updateInterpolation:
  assumes "interpolationActive st"
  shows "valueOf (currentBlendshapes (updateInterpolation now st)) m =
     valueOf (interpolationStartValues st) m
     + (valueOf (targetBlendshapes st) m - valueOf (interpolationStartValues st) m)
       * easeInOut (progress now st)"
proof (cases "progress now st \<ge> 1")
  case True
  then have "progress now st = 1" using progress_le_1 [of now st] by simp
  with assms show ?thesis by (simp add: updateInterpolation_def Let_def easeInOut_1)
next
  case False
  with assms show ?thesis by (simp add: updateInterpolation_def Let_def valueOf_interpolated)
qed


lemma lerp_distance:
  fixes a b e :: real
  assumes "e \<le> 1"
  shows "\<bar>a + (b - a) * e - b\<bar> = \<bar>a - b\<bar> * (1 - e)"
proof -
  have "a + (b - a) * e - b = (a - b) * (1 - e)" by (simp add: algebra_simps)
  then show ?thesis using assms by (simp add: abs_mult)
qed

lemma updateInterpolation_running:
  "interpolationActive st \<Longrightarrow> progress now st < 1 \<Longrightarrow>
   updateInterpolation now st = st\<lparr> currentBlendshapes := interpolated now st \<rparr>"
  by (simp add: updateInterpolation_def Let_def)

lemma updateInterpolation_finished:
  "interpolationActive st \<Longrightarrow> 1 \<le> progress now st \<Longrightarrow>
   updateInterpolation now st =
     st\<lparr> currentBlendshapes := targetBlendshapes st, interpolationActive := False \<rparr>"
  by (simp add: updateInterpolation_def Let_def)

lemma updateInterpolation_idle:
  "\<not> interpolationActive st \<Longrightarrow> updateInterpolation now st = st"
  by (simp add: updateInterpolation_def)


lemma second_frame:
  assumes "interpolationActive st" "progress t1 st < 1"
  shows "valueOf (currentBlendshapes (updateInterpolation t2 (updateInterpolation t1 st))) m
         = valueOf (currentBlendshapes (updateInterpolation t2 st)) m"
proof -
  let ?s1 = "st\<lparr> currentBlendshapes := interpolated t1 st \<rparr>"
  have act: "interpolationActive ?s1" using assms by simp
  have "progress t2 ?s1 = progress t2 st" by (simp add: progress_def)
  then show ?thesis
    by (simp add: updateInterpolation_running [OF assms]
        valueOf_updateInterpolation [OF act] valueOf_updateInterpolation [OF assms(1)])
qed

lemma map_of_rev_distinct: "distinct (map fst xs) \<Longrightarrow> map_of (rev xs) k = map_of xs k"
  by (induction xs) (force simp: map_add_def split: option.splits dest: map_of_SomeD)+

lemma map_of_assignAll_distinct:
  "distinct (keys src) \<Longrightarrow>
   map_of (assignAll src dst) k =
     (if k = ''__proto__'' \<and> map_of dst k = None then None
      else case map_of src k of None \<Rightarrow> map_of dst k | Some v \<Rightarrow> Some v)"
  by (auto simp: map_of_assignAll map_add_def map_of_rev_distinct keys_def split: option.splits)


lemma frame_settled:
  assumes "interpolationActive st"
    and "0 < interpolationDuration st"
    and "interpolationStartTime st + interpolationDuration st \<le> t1"
  shows "currentBlendshapes (updateInterpolation t1 st) = targetBlendshapes st"
    and "\<not> interpolationActive (updateInterpolation t1 st)"
proof -
  have "1 \<le> progress t1 st" using progress_done [OF assms(2,3)] by simp
  then show "currentBlendshapes (updateInterpolation t1 st) = targetBlendshapes st"
    and "\<not> interpolationActive (updateInterpolation t1 st)"
    using assms(1) by (simp_all add: updateInterpolation_finished)
qed

lemma animationFrames_idle:
  "\<not> interpolationActive st \<Longrightarrow> animationFrames frameTimes st = st"
  unfolding animationFrames_def
  by (induction frameTimes) (simp_all add: updateInterpolation_idle)

lemma animationFrames_Cons:
  "animationFrames (t # later) st = animationFrames later (updateInterpolation t st)"
  by (simp add: animationFrames_def)

lemma handleBlendshapeUpdate_enabled:
  "enableInterpolation st \<Longrightarrow>
   handleBlendshapeUpdate now (Some c) st = startInterpolation now (applyCompression c st)"
  by (simp add: handleBlendshapeUpdate_def applyCompression_def Let_def)

lemma handleBlendshapeUpdate_disabled:
  "\<not> enableInterpolation st \<Longrightarrow>
   handleBlendshapeUpdate now (Some c) st =
     (applyCompression c st)\<lparr> currentBlendshapes := targetBlendshapes (applyCompression c st) \<rparr>"
  by (simp add: handleBlendshapeUpdate_def applyCompression_def Let_def)

lemma applyCompression_keeps:
  "currentBlendshapes (applyCompression c st) = currentBlendshapes st"
  "interpolationDuration (applyCompression c st) = interpolationDuration st"
  "enableInterpolation (applyCompression c st) = enableInterpolation st"
  by (simp_all add: applyCompression_def)

lemma held_fields:
  "interpolationActive held"
  "enableInterpolation held"
  "interpolationDuration held = 33"
  "interpolationStartTime held = 0"
  "interpolationStartValues held = []"
  "targetBlendshapes held = [(''A'', 4 / 5)]"
  by (simp_all add: held_def keyframe_def handleBlendshapeUpdate_def applyCompression_def
      startInterpolation_def newClient_def Let_def)








lemma progress_after_done:
  assumes "0 < interpolationDuration st" and "t1 \<le> t2" and "1 \<le> progress t1 st"
  shows "progress t2 st = 1"
  using progress_mono [OF assms(1,2)] assms(3) progress_le_1 [of t2 st] by simp

lemma two_frames_value:
  assumes "interpolationActive st" and "0 < interpolationDuration st" and "t1 \<le> t2"
  shows "valueOf (currentBlendshapes (updateInterpolation t2 (updateInterpolation t1 st))) m =
     valueOf (interpolationStartValues st) m
     + (valueOf (targetBlendshapes st) m - valueOf (interpolationStartValues st) m)
       * easeInOut (progress t2 st)"
proof (cases "progress t1 st < 1")
  case True
  show ?thesis
    by (simp add: second_frame [OF assms(1) True] valueOf_updateInterpolation [OF assms(1)])
next
  case False
  then have "progress t2 st = 1" using progress_after_done [OF assms(2,3)] by simp
  with False assms(1) show ?thesis
    by (simp add: updateInterpolation_finished updateInterpolation_idle easeInOut_1)
qed

lemma ease_bounds:
  assumes "0 < interpolationDuration st" and "interpolationStartTime st \<le> t1" and "t1 \<le> t2"
  shows "0 \<le> easeInOut (progress t1 st)"
    and "easeInOut (progress t1 st) \<le> easeInOut (progress t2 st)"
    and "easeInOut (progress t2 st) \<le> 1"
proof -
  show "0 \<le> easeInOut (progress t1 st)"
    using easeInOut_range(1) [OF progress_nonneg [OF assms(1,2)] progress_le_1] .
  show "easeInOut (progress t1 st) \<le> easeInOut (progress t2 st)"
    by (rule easeInOut_mono) (rule progress_mono [OF assms(1,3)])
  show "easeInOut (progress t2 st) \<le> 1"
    using easeInOut_mono [OF progress_le_1 [of t2 st]] by (simp add: easeInOut_1)
qed


lemma two_frames_distance:
  assumes "interpolationActive st" and "0 < interpolationDuration st"
    and "interpolationStartTime st \<le> t1" and "t1 \<le> t2"
  shows "\<bar>valueOf (currentBlendshapes (updateInterpolation t2 (updateInterpolation t1 st))) m
           - valueOf (targetBlendshapes st) m\<bar>
         = \<bar>valueOf (interpolationStartValues st) m - valueOf (targetBlendshapes st) m\<bar>
           * (1 - easeInOut (progress t2 st))"
  using ease_bounds(3) [OF assms(2,3,4)]
  by (simp add: two_frames_value [OF assms(1,2,4)] lerp_distance)

lemma setInterpolationEnabled_fields:
  "enableInterpolation (setInterpolationEnabled enabled st) = enabled"
  "interpolationActive (setInterpolationEnabled enabled st) = interpolationActive st"
  "interpolationDuration (setInterpolationEnabled enabled st) = interpolationDuration st"
  "interpolationStartTime (setInterpolationEnabled enabled st) = interpolationStartTime st"
  "interpolationStartValues (setInterpolationEnabled enabled st) = interpolationStartValues st"
  "targetBlendshapes (setInterpolationEnabled enabled st) = targetBlendshapes st"
  "currentBlendshapes (setInterpolationEnabled enabled st) = currentBlendshapes st"
  "progress now (setInterpolationEnabled enabled st) = progress now st"
  by (simp_all add: setInterpolationEnabled_def progress_def)

section \<open>Interpolation: the sampled value\<close>

lemma rising_fields:
  "interpolationActive rising"
  "interpolationDuration rising = 33"
  "interpolationStartTime rising = 0"
  "interpolationStartValues rising = []"
  "targetBlendshapes rising = [(''A'', 1)]"
  by (simp_all add: rising_def keyframe_def handleBlendshapeUpdate_def applyCompression_def
      startInterpolation_def newClient_def Let_def)





section \<open>Retargeting\<close>

text \<open>
  C8, as the code has it. A message arrives while a transition is in flight (the last
  frame, at \<open>t0\<close>, had not completed it). With interpolation enabled, it starts a new
  transition whose start values are the values interpolated at that frame, not the old
  target, and whose start time is \<open>now\<close>; a frame at that same instant shows every morph at
  the value it had, so the output does not jump. With interpolation disabled, the start
  values and the start time are left as they were and the current values are set to the
  new target at once.
\<close>

theorem retarget_continuous:
  assumes "interpolationActive st0"
    and "progress t0 st0 < 1"
    and "0 < interpolationDuration st0"
  shows "(enableInterpolation st0 \<longrightarrow>
           interpolationStartValues
             (handleBlendshapeUpdate now (Some c) (updateInterpolation t0 st0))
           = interpolated t0 st0
         \<and> interpolationStartTime
             (handleBlendshapeUpdate now (Some c) (updateInterpolation t0 st0)) = now
         \<and> interpolationActive
             (handleBlendshapeUpdate now (Some c) (updateInterpolation t0 st0))
         \<and> valueOf (currentBlendshapes (updateInterpolation now
               (handleBlendshapeUpdate now (Some c) (updateInterpolation t0 st0)))) m
           = valueOf (currentBlendshapes (updateInterpolation t0 st0)) m)
       \<and> (\<not> enableInterpolation st0 \<longrightarrow>
           interpolationStartValues
             (handleBlendshapeUpdate now (Some c) (updateInterpolation t0 st0))
           = interpolationStartValues st0
         \<and> interpolationStartTime
             (handleBlendshapeUpdate now (Some c) (updateInterpolation t0 st0))
           = interpolationStartTime st0
         \<and> currentBlendshapes
             (handleBlendshapeUpdate now (Some c) (updateInterpolation t0 st0))
           = targetBlendshapes
               (handleBlendshapeUpdate now (Some c) (updateInterpolation t0 st0)))"
proof (intro conjI impI)
  let ?st = "updateInterpolation t0 st0"
  let ?st' = "handleBlendshapeUpdate now (Some c) ?st"
  have st: "?st = st0\<lparr> currentBlendshapes := interpolated t0 st0 \<rparr>"
    by (rule updateInterpolation_running [OF assms(1,2)])
  {
    assume on: "enableInterpolation st0"
    have en: "enableInterpolation ?st" using on by (simp add: st)
    have eq: "?st' = startInterpolation now (applyCompression c ?st)"
      by (rule handleBlendshapeUpdate_enabled [OF en])
    have sv: "interpolationStartValues ?st' = currentBlendshapes ?st"
      by (simp add: eq startInterpolation_def applyCompression_keeps)
    show "interpolationStartValues ?st' = interpolated t0 st0" unfolding sv by (simp add: st)
    show tm: "interpolationStartTime ?st' = now" by (simp add: eq startInterpolation_def)
    show act: "interpolationActive ?st'" by (simp add: eq startInterpolation_def)
    have "progress now ?st' = 0" by (simp add: progress_def tm)
    then have "valueOf (currentBlendshapes (updateInterpolation now ?st')) m
        = valueOf (interpolationStartValues ?st') m"
      by (simp add: valueOf_updateInterpolation [OF act] easeInOut_0)
    then show "valueOf (currentBlendshapes (updateInterpolation now ?st')) m
        = valueOf (currentBlendshapes ?st) m"
      by (simp add: sv)
  }
  {
    assume off: "\<not> enableInterpolation st0"
    have en: "\<not> enableInterpolation ?st" using off by (simp add: st)
    have eq: "?st' = (applyCompression c ?st)
        \<lparr> currentBlendshapes := targetBlendshapes (applyCompression c ?st) \<rparr>"
      by (rule handleBlendshapeUpdate_disabled [OF en])
    show "interpolationStartValues ?st' = interpolationStartValues st0"
      unfolding eq by (simp add: st applyCompression_def)
    show "interpolationStartTime ?st' = interpolationStartTime st0"
      unfolding eq by (simp add: st applyCompression_def)
    show "currentBlendshapes ?st' = targetBlendshapes ?st'"
      unfolding eq by simp
  }
qed

theorem retarget_continuous_witness:
  "interpolationActive rising \<and> progress (33 / 2) rising < 1 \<and> enableInterpolation rising
   \<and> 0 < interpolationDuration rising
   \<and> interpolationStartValues
       (handleBlendshapeUpdate 20 (keyframe [(''A'', 0)]) (updateInterpolation (33 / 2) rising))
     = [(''A'', 1 / 2)]
   \<and> targetBlendshapes rising = [(''A'', 1)]
   \<and> interpolationStartTime
       (handleBlendshapeUpdate 20 (keyframe [(''A'', 0)]) (updateInterpolation (33 / 2) rising))
     = 20
   \<and> valueOf (currentBlendshapes (updateInterpolation 20
         (handleBlendshapeUpdate 20 (keyframe [(''A'', 0)])
            (updateInterpolation (33 / 2) rising)))) ''A''
     = 1 / 2
   \<and> interpolationActive (setInterpolationEnabled False rising)
   \<and> progress (33 / 2) (setInterpolationEnabled False rising) < 1
   \<and> \<not> enableInterpolation (setInterpolationEnabled False rising)
   \<and> interpolationStartTime
       (handleBlendshapeUpdate 20 (keyframe [(''A'', 0)])
          (updateInterpolation (33 / 2) (setInterpolationEnabled False rising)))
     = 0"
proof -
  let ?off = "setInterpolationEnabled False rising"
  have en: "enableInterpolation rising"
    by (simp add: rising_def keyframe_def handleBlendshapeUpdate_def applyCompression_def
        startInterpolation_def newClient_def Let_def)
  have h: "interpolationActive rising" "progress (33 / 2) rising < 1"
    "0 < interpolationDuration rising"
    by (simp_all add: rising_fields progress_def)
  have g: "interpolationActive ?off" "progress (33 / 2) ?off < 1"
    "0 < interpolationDuration ?off"
    using h by (simp_all add: setInterpolationEnabled_fields)
  have off: "\<not> enableInterpolation ?off" by (simp add: setInterpolationEnabled_fields)
  have i: "interpolated (33 / 2) rising = [(''A'', 1 / 2)]"
    by (simp add: interpolated_def allMorphs_def keys_def rising_fields valueOf_simps
        progress_def easeInOut_def Let_def)
  have v: "valueOf (currentBlendshapes (updateInterpolation (33 / 2) rising)) ''A'' = 1 / 2"
    by (simp add: updateInterpolation_running [OF h(1,2)] i valueOf_simps)
  note w1 = retarget_continuous [OF h, of 20 "\<lparr> ctype = ''keyframe'', cdata = [(''A'', 0)] \<rparr>" "''A''"]
  note w2 = retarget_continuous [OF g, of 20 "\<lparr> ctype = ''keyframe'', cdata = [(''A'', 0)] \<rparr>" "''A''"]
  have a1: "interpolationStartValues
       (handleBlendshapeUpdate 20 (keyframe [(''A'', 0)]) (updateInterpolation (33 / 2) rising))
     = [(''A'', 1 / 2)]"
    and a2: "interpolationStartTime
       (handleBlendshapeUpdate 20 (keyframe [(''A'', 0)]) (updateInterpolation (33 / 2) rising))
     = 20"
    and a3: "valueOf (currentBlendshapes (updateInterpolation 20
         (handleBlendshapeUpdate 20 (keyframe [(''A'', 0)])
            (updateInterpolation (33 / 2) rising)))) ''A''
     = 1 / 2"
    using w1 en by (simp_all add: keyframe_def i v)
  have a4: "interpolationStartTime
       (handleBlendshapeUpdate 20 (keyframe [(''A'', 0)])
          (updateInterpolation (33 / 2) ?off))
     = 0"
    using w2 off by (simp add: keyframe_def setInterpolationEnabled_fields rising_fields)
  from h en g off a1 a2 a3 a4 rising_fields(5) show ?thesis by blast
qed

text \<open>
  The claim of C8 after \<open>setInterpolationEnabled(false)\<close> in mid-transition: morph A shows 0.5,
  the keyframe \<open>{A: 0}\<close> arrives at time 20; the start values and the start time stay those
  of the old transition and the output drops to 0 at once.
\<close>

theorem retarget_counterexample:
  "interpolationActive (setInterpolationEnabled False (updateInterpolation (33 / 2) rising))
   \<and> valueOf (currentBlendshapes
        (setInterpolationEnabled False (updateInterpolation (33 / 2) rising))) ''A'' = 1 / 2
   \<and> interpolationStartValues
        (handleBlendshapeUpdate 20 (keyframe [(''A'', 0)])
           (setInterpolationEnabled False (updateInterpolation (33 / 2) rising)))
      = []
   \<and> interpolationStartTime
        (handleBlendshapeUpdate 20 (keyframe [(''A'', 0)])
           (setInterpolationEnabled False (updateInterpolation (33 / 2) rising)))
      = 0
   \<and> valueOf (currentBlendshapes
        (handleBlendshapeUpdate 20 (keyframe [(''A'', 0)])
           (setInterpolationEnabled False (updateInterpolation (33 / 2) rising)))) ''A''
      = 0"
proof -
  have h: "interpolationActive rising" "progress (33 / 2) rising < 1"
    by (simp_all add: rising_fields progress_def)
  have i: "interpolated (33 / 2) rising = [(''A'', 1 / 2)]"
    by (simp add: interpolated_def allMorphs_def keys_def rising_fields valueOf_simps
        progress_def easeInOut_def Let_def)
  have st: "updateInterpolation (33 / 2) rising = rising\<lparr> currentBlendshapes := [(''A'', 1 / 2)] \<rparr>"
    by (simp add: updateInterpolation_running [OF h] i)
  show ?thesis
    by (simp add: st setInterpolationEnabled_def handleBlendshapeUpdate_def keyframe_def
        applyCompression_def Let_def rising_fields valueOf_simps)
qed

section \<open>No decay\<close>

text \<open>
  C5, as the code has it. Nothing in the client decays a channel: once the transition to the
  last target has completed, every later frame leaves the channel map equal to that target,
  however much time passes without a snapshot.
\<close>

theorem no_decay:
  assumes "interpolationActive st"
    and "0 < interpolationDuration st"
    and "interpolationStartTime st + interpolationDuration st \<le> t"
  shows "currentBlendshapes (animationFrames (t # later) st) = targetBlendshapes st"
proof -
  have "animationFrames (t # later) st = updateInterpolation t st"
    by (simp add: animationFrames_Cons animationFrames_idle frame_settled(2) [OF assms])
  then show ?thesis by (simp add: frame_settled(1) [OF assms])
qed

theorem no_decay_witness:
  "interpolationActive held \<and> 0 < interpolationDuration held
   \<and> interpolationStartTime held + interpolationDuration held \<le> 33
   \<and> currentBlendshapes (animationFrames [33, 133, 233, 333, 433, 533, 633] held)
     = [(''A'', 4 / 5)]"
proof -
  have h: "interpolationActive held" "0 < interpolationDuration held"
    "interpolationStartTime held + interpolationDuration held \<le> 33"
    by (simp_all add: held_fields)
  from no_decay [OF h, of "[133, 233, 333, 433, 533, 633]"] h
  show ?thesis by (simp add: held_fields)
qed

text \<open>
  The claim of C5 at its own example: a channel at 0.8, no further snapshot, 600 ms later.
\<close>

theorem decay_counterexample:
  "valueOf (currentBlendshapes (animationFrames [33] held)) ''A'' = 4 / 5
   \<and> valueOf (currentBlendshapes (animationFrames [33, 133, 233, 333, 433, 533, 633] held)) ''A''
     = 4 / 5
   \<and> \<not> (4 / 5 \<le> (1 / 100 :: real))"
proof -
  have h: "interpolationActive held" "0 < interpolationDuration held"
    "interpolationStartTime held + interpolationDuration held \<le> 33"
    by (simp_all add: held_fields)
  have s: "updateInterpolation 33 held
      = held\<lparr> currentBlendshapes := [(''A'', 4 / 5)], interpolationActive := False \<rparr>"
    by (simp add: updateInterpolation_finished progress_def held_fields)
  have idle: "\<not> interpolationActive (updateInterpolation 33 held)" by (simp add: s)
  have "animationFrames [33, 133, 233, 333, 433, 533, 633] held = updateInterpolation 33 held"
    unfolding animationFrames_Cons [of 33] by (rule animationFrames_idle [OF idle])
  moreover have "animationFrames [33] held = updateInterpolation 33 held"
    by (simp add: animationFrames_def)
  ultimately show ?thesis by (simp add: s valueOf_simps)
qed

section \<open>A delta before any keyframe\<close>

lemma step_no_keyframe:
  "\<not> isKeyframe ev \<Longrightarrow>
   keyframeBlendshapes (step ev st) = keyframeBlendshapes st
   \<and> keyframesReceived (step ev st) = keyframesReceived st"
proof (cases ev)
  case (Message now msg)
  assume "\<not> isKeyframe ev"
  with Message show ?thesis
    by (cases msg)
      (simp_all add: handleBlendshapeUpdate_def applyCompression_def startInterpolation_def
        Let_def)
next
  case (Frame now)
  then show ?thesis by (simp add: updateInterpolation_def Let_def)
next
  case (SetInterpolationEnabled enabled)
  then show ?thesis by (simp add: setInterpolationEnabled_def)
qed

lemma run_no_keyframe:
  "\<forall>ev \<in> set history. \<not> isKeyframe ev \<Longrightarrow>
   keyframeBlendshapes (run history st) = keyframeBlendshapes st
   \<and> keyframesReceived (run history st) = keyframesReceived st"
  unfolding run_def
  by (induction history arbitrary: st) (simp_all add: step_no_keyframe)

lemma delta_on_empty_keyframe:
  assumes "keyframeBlendshapes st = []" and "distinct (keys d)"
  shows "map_of (targetBlendshapes (handleBlendshapeUpdate now (delta d) st)) k
         = (if k = ''__proto__'' then None else map_of d k)"
    and "deltasApplied (handleBlendshapeUpdate now (delta d) st) = deltasApplied st + 1"
proof -
  have t: "targetBlendshapes (handleBlendshapeUpdate now (delta d) st) = assignAll d []"
    by (simp add: handleBlendshapeUpdate_def delta_def applyCompression_def
        startInterpolation_def Let_def assms(1))
  show "map_of (targetBlendshapes (handleBlendshapeUpdate now (delta d) st)) k
         = (if k = ''__proto__'' then None else map_of d k)"
    unfolding t by (simp add: map_of_assignAll_distinct [OF assms(2)] split: option.splits)
  show "deltasApplied (handleBlendshapeUpdate now (delta d) st) = deltasApplied st + 1"
    by (simp add: handleBlendshapeUpdate_def delta_def applyCompression_def
        startInterpolation_def Let_def)
qed

text \<open>
  C4, as the code has it. As long as no keyframe has arrived, whatever else has happened to
  the client, its keyframe map is still the empty one of the constructor. A delta that
  arrives then is not rejected: it is applied against the empty baseline, so the target
  map holds exactly the delta's entries (an entry named \<open>__proto__\<close> is dropped by the
  inherited setter), and the delta is counted as applied.
\<close>

theorem delta_without_keyframe_applied:
  assumes "\<forall>ev \<in> set history. \<not> isKeyframe ev"
    and "distinct (keys d)"
  shows "keyframesReceived (run history (newClient e)) = 0
       \<and> map_of (targetBlendshapes
            (handleBlendshapeUpdate now (delta d) (run history (newClient e)))) k
         = (if k = ''__proto__'' then None else map_of d k)
       \<and> deltasApplied (handleBlendshapeUpdate now (delta d) (run history (newClient e)))
         = deltasApplied (run history (newClient e)) + 1"
proof -
  have kf: "keyframeBlendshapes (run history (newClient e)) = []"
    and n: "keyframesReceived (run history (newClient e)) = 0"
    using run_no_keyframe [OF assms(1), of "newClient e"] by (simp_all add: newClient_def)
  show ?thesis
    using n delta_on_empty_keyframe(1) [OF kf assms(2), of now k]
      delta_on_empty_keyframe(2) [OF kf assms(2), of now]
    by simp
qed

theorem delta_without_keyframe_applied_witness:
  "\<not> isKeyframe (Frame 16)
   \<and> \<not> isKeyframe (Message 20 (delta [(''B'', 1 / 5)]))
   \<and> \<not> isKeyframe (SetInterpolationEnabled False)
   \<and> distinct (keys [(''A'', 3 / 5)])
   \<and> map_of (targetBlendshapes
        (handleBlendshapeUpdate 40 (delta [(''A'', 3 / 5)])
           (run [Frame 16, Message 20 (delta [(''B'', 1 / 5)]), SetInterpolationEnabled False]
              (newClient True)))) ''A''
     = Some (3 / 5)
   \<and> map_of (targetBlendshapes
        (handleBlendshapeUpdate 40 (delta [(''A'', 3 / 5)])
           (run [Frame 16, Message 20 (delta [(''B'', 1 / 5)]), SetInterpolationEnabled False]
              (newClient True)))) ''B''
     = None"
proof -
  let ?h = "[Frame 16, Message 20 (delta [(''B'', 1 / 5)]), SetInterpolationEnabled False]"
  have h: "\<forall>ev \<in> set ?h. \<not> isKeyframe ev" by (simp add: delta_def)
  have d: "distinct (keys [(''A'', 3 / 5 :: real)])" by (simp add: keys_def)
  from delta_without_keyframe_applied [OF h d, of True 40 "''A''"]
    delta_without_keyframe_applied [OF h d, of True 40 "''B''"] h d
  show ?thesis by (simp add: delta_def)
qed

text \<open>The claim of C4 at a concrete delta: the state changes and the delta reaches the output.\<close>

theorem delta_rejected_counterexample:
  "keyframesReceived (newClient True) = 0
   \<and> targetBlendshapes (handleBlendshapeUpdate 0 (delta [(''A'', 3 / 5)]) (newClient True))
     = [(''A'', 3 / 5)]
   \<and> currentBlendshapes
       (updateInterpolation 33
         (handleBlendshapeUpdate 0 (delta [(''A'', 3 / 5)]) (newClient True)))
     = [(''A'', 3 / 5)]
   \<and> handleBlendshapeUpdate 0 (delta [(''A'', 3 / 5)]) (newClient True) \<noteq> newClient True"
  by (simp add: handleBlendshapeUpdate_def delta_def applyCompression_def assignAll_def
      assign_def startInterpolation_def newClient_def updateInterpolation_def progress_def
      Let_def)


section \<open>Morphs absent from one side\<close>



section \<open>Delta encoding and decoding\<close>

lemma map_of_fold_cond:
  "distinct (map fst xs) \<Longrightarrow>
   map_of (fold (\<lambda>(key, v) d. if P key v then AList.update key (g key v) d else d) xs d0) k =
     (case map_of xs k of
        None \<Rightarrow> map_of d0 k
      | Some v \<Rightarrow> if P k v then Some (g k v) else map_of d0 k)"
proof (induction xs arbitrary: d0)
  case Nil
  show ?case by simp
next
  case (Cons a xs)
  obtain key v where a: "a = (key, v)" by (cases a)
  from Cons.prems have d: "distinct (map fst xs)" and nk: "key \<notin> fst ` set xs"
    by (simp_all add: a)
  from nk have none: "map_of xs key = None" by (simp add: map_of_eq_None_iff)
  show ?case
    using none by (auto simp: a Cons.IH [OF d] update_conv' split: option.splits)
qed

lemma map_of_findChanges:
  "distinct (keys current) \<Longrightarrow>
   map_of (findChanges current previous d0) k =
     (case map_of current k of
        None \<Rightarrow> map_of d0 k
      | Some v \<Rightarrow>
          if (case map_of previous k of None \<Rightarrow> True | Some p \<Rightarrow> \<bar>v - p\<bar> > 1 / 1000)
          then Some v else map_of d0 k)"
  unfolding findChanges_def keys_def
  by (rule map_of_fold_cond
      [where P = "\<lambda>key v. case map_of previous key of None \<Rightarrow> True | Some p \<Rightarrow> \<bar>v - p\<bar> > 1 / 1000"
         and g = "\<lambda>key v. v"])

lemma map_of_removeZeros:
  "distinct (keys previous) \<Longrightarrow>
   map_of (removeZeros current previous d0) k =
     (case map_of previous k of
        None \<Rightarrow> map_of d0 k
      | Some p \<Rightarrow> if map_of current k = None \<and> p > 1 / 1000 then Some 0 else map_of d0 k)"
  unfolding removeZeros_def keys_def
  by (rule map_of_fold_cond
      [where P = "\<lambda>key v. map_of current key = None \<and> v > 1 / 1000" and g = "\<lambda>key v. 0"])

lemma distinct_fold_cond:
  "distinct (map fst d0) \<Longrightarrow>
   distinct (map fst (fold (\<lambda>(key, v) d. if P key v then AList.update key (g key v) d else d)
                           xs d0))"
  by (induction xs arbitrary: d0) (auto simp: distinct_update)

lemma distinct_compress: "distinct (keys (compress current previous))"
  unfolding compress_def removeZeros_def findChanges_def keys_def
  by (intro distinct_fold_cond) simp

lemma map_of_compress:
  assumes "distinct (keys current)" and "distinct (keys previous)"
  shows "map_of (compress current previous) k =
     (case map_of current k of
        Some v \<Rightarrow>
          (case map_of previous k of
             None \<Rightarrow> Some v
           | Some p \<Rightarrow> if \<bar>v - p\<bar> > 1 / 1000 then Some v else None)
      | None \<Rightarrow>
          (case map_of previous k of
             None \<Rightarrow> None
           | Some p \<Rightarrow> if p > 1 / 1000 then Some 0 else None))"
  by (simp add: compress_def map_of_removeZeros [OF assms(2)] map_of_findChanges [OF assms(1)]
      split: option.splits)

text \<open>
  C2, as the code has it. Decoding \<open>compress(S, K)\<close> against the keyframe \<open>K\<close> gives, channel
  by channel: the value of \<open>S\<close> where the channel is in \<open>S\<close> and either is absent from \<open>K\<close>
  or differs from \<open>K\<close> by more than 0.001; the value 0 where the channel is absent from \<open>S\<close>
  and its value in \<open>K\<close> exceeds 0.001; the value of \<open>K\<close> (or no entry) everywhere else.
  The one exception is the name \<open>__proto__\<close>: where \<open>K\<close> does not hold it, the decoder's
  assignment stores nothing and the decoded map has no such entry.
\<close>

theorem delta_roundtrip:
  assumes "distinct (keys S)" and "distinct (keys K)"
    and "keyframeBlendshapes st = K"
  shows "map_of (targetBlendshapes (handleBlendshapeUpdate now (delta (compress S K)) st)) k =
     (if k = ''__proto__'' \<and> map_of K k = None then None
      else
        (case map_of S k of
           Some v \<Rightarrow>
             (case map_of K k of
                None \<Rightarrow> Some v
              | Some p \<Rightarrow> if \<bar>v - p\<bar> > 1 / 1000 then Some v else Some p)
         | None \<Rightarrow>
             (case map_of K k of
                None \<Rightarrow> None
              | Some p \<Rightarrow> if p > 1 / 1000 then Some 0 else Some p)))"
proof -
  have "targetBlendshapes (handleBlendshapeUpdate now (delta (compress S K)) st)
        = assignAll (compress S K) K"
    by (simp add: handleBlendshapeUpdate_def delta_def applyCompression_def
        startInterpolation_def Let_def assms(3))
  then show ?thesis
    by (auto simp: map_of_assignAll_distinct [OF distinct_compress]
        map_of_compress [OF assms(1,2)] split: option.splits)
qed

theorem delta_roundtrip_witness:
  "distinct (keys [(''A'', 3 / 5), (''C'', 1 / 10)])
   \<and> distinct (keys [(''A'', 1 / 2), (''B'', 1 / 5), (''C'', 1 / 10)])
   \<and> keyframeBlendshapes
        (handleBlendshapeUpdate 0 (keyframe [(''A'', 1 / 2), (''B'', 1 / 5), (''C'', 1 / 10)])
           (newClient True))
      = [(''A'', 1 / 2), (''B'', 1 / 5), (''C'', 1 / 10)]
   \<and> map_of (targetBlendshapes
        (handleBlendshapeUpdate 33
           (delta (compress [(''A'', 3 / 5), (''C'', 1 / 10)]
                            [(''A'', 1 / 2), (''B'', 1 / 5), (''C'', 1 / 10)]))
           (handleBlendshapeUpdate 0 (keyframe [(''A'', 1 / 2), (''B'', 1 / 5), (''C'', 1 / 10)])
              (newClient True)))) ''B''
      = Some 0"
proof -
  let ?K = "[(''A'', 1 / 2), (''B'', 1 / 5), (''C'', 1 / 10 :: real)]"
  let ?S = "[(''A'', 3 / 5), (''C'', 1 / 10 :: real)]"
  let ?st = "handleBlendshapeUpdate 0 (keyframe ?K) (newClient True)"
  have d: "distinct (keys ?S)" "distinct (keys ?K)" by (simp_all add: keys_def)
  have kf: "keyframeBlendshapes ?st = ?K"
    by (simp add: handleBlendshapeUpdate_def keyframe_def applyCompression_def
        startInterpolation_def newClient_def Let_def)
  from delta_roundtrip [OF d kf, of 33 "''B''"] d kf show ?thesis by simp
qed

text \<open>
  The claim of C2 at a channel that is new in \<open>S\<close> with value 0: it does not differ from the
  reference, where it reads 0, yet the delta carries it and the decoder assigns it.
\<close>

theorem delta_roundtrip_counterexample:
  "compress [(''A'', 0)] [] = [(''A'', 0)]
   \<and> \<not> spec_differs [(''A'', 0)] [] ''A''
   \<and> targetBlendshapes
        (handleBlendshapeUpdate 33 (delta (compress [(''A'', 0)] []))
           (handleBlendshapeUpdate 0 (keyframe []) (newClient True)))
      = [(''A'', 0)]"
  by (simp add: compress_def findChanges_def removeZeros_def spec_differs_def spec_epsilon_def
      valueOf_simps handleBlendshapeUpdate_def delta_def keyframe_def applyCompression_def
      assignAll_def assign_def startInterpolation_def newClient_def Let_def)

section \<open>The scheduler: priority morphs\<close>

lemma storeMorph_fields:
  "config (storeMorph n v s) = config s"
  "morphMap (storeMorph n v s) = morphMap s"
  "morphStates (storeMorph n v s) = (morphStates s)(n \<mapsto> v)"
  "dirtyMorphs (storeMorph n v s) = finsert n (dirtyMorphs s)"
  by (simp_all add: storeMorph_def)

lemma skipUpdate_fields:
  "config (skipUpdate s) = config s"
  "morphMap (skipUpdate s) = morphMap s"
  "morphStates (skipUpdate s) = morphStates s"
  by (simp_all add: skipUpdate_def)

lemma setMorph_cases:
  assumes "qualityPresets (quality (config s)) = Some p"
  shows "setMorph n v False s = Inr (False, s)
       \<or> setMorph n v False s = Inr (False, skipUpdate s)
       \<or> setMorph n v False s = Inr (True, storeMorph n v s)"
  using assms by (simp add: setMorph_def checkActiveLimit_def Let_def)

lemma setMorph_frame:
  assumes "qualityPresets (quality (config s)) = Some p"
  shows "\<exists>accepted s'. setMorph n v False s = Inr (accepted, s')
           \<and> config s' = config s \<and> morphMap s' = morphMap s
           \<and> (\<forall>m. m \<noteq> n \<longrightarrow> morphStates s' m = morphStates s m)"
  using setMorph_cases [OF assms, of n v]
  by (elim disjE) (auto simp: storeMorph_fields skipUpdate_fields)

lemma setMorph_priority:
  assumes "qualityPresets (quality (config s)) = Some p"
    and "n |\<in>| morphMap s"
    and "n |\<in>| priorityMorphs (config s)"
    and "selectiveUpdates (config s) \<longrightarrow> morphUpdateThreshold p \<le> \<bar>v - currentValueOf s n\<bar>"
  shows "setMorph n v False s = Inr (True, storeMorph n v s)"
  using assms by (auto simp: setMorph_def checkActiveLimit_def Let_def)

lemma setEach_keeps:
  assumes "qualityPresets (quality (config s)) = Some p"
    and "n \<notin> fst ` set xs"
    and "n \<in> set updates"
    and "morphStates s n = Some v"
  shows "\<exists>updates' s'. setEach xs updates s = Inr (updates', s')
           \<and> n \<in> set updates' \<and> morphStates s' n = Some v \<and> config s' = config s"
  using assms
proof (induction xs arbitrary: updates s)
  case Nil
  then show ?case by simp
next
  case (Cons a xs)
  obtain m w where a: "a = (m, w)" by (cases a)
  from Cons.prems(2) have mn: "n \<noteq> m" and nx: "n \<notin> fst ` set xs" by (auto simp: a)
  obtain accepted s1 where s1: "setMorph m w False s = Inr (accepted, s1)"
    and c1: "config s1 = config s"
    and st1: "\<And>k. k \<noteq> m \<Longrightarrow> morphStates s1 k = morphStates s k"
    using setMorph_frame [OF Cons.prems(1), of m w] by blast
  have p1: "qualityPresets (quality (config s1)) = Some p" using Cons.prems(1) by (simp add: c1)
  have v1: "morphStates s1 n = Some v" using st1 [OF mn] Cons.prems(4) by simp
  have u1: "n \<in> set (if accepted then updates @ [m] else updates)"
    using Cons.prems(3) by simp
  from Cons.IH [OF p1 nx u1 v1] show ?case by (simp add: a s1 c1)
qed

lemma setEach_priority:
  assumes "qualityPresets (quality (config s)) = Some p"
    and "distinct (map fst xs)"
    and "(n, v) \<in> set xs"
    and "n |\<in>| morphMap s"
    and "n |\<in>| priorityMorphs (config s)"
    and "selectiveUpdates (config s) \<longrightarrow> morphUpdateThreshold p \<le> \<bar>v - currentValueOf s n\<bar>"
  shows "\<exists>updates' s'. setEach xs updates s = Inr (updates', s')
           \<and> n \<in> set updates' \<and> morphStates s' n = Some v \<and> config s' = config s"
  using assms
proof (induction xs arbitrary: updates s)
  case Nil
  then show ?case by simp
next
  case (Cons a xs)
  obtain m w where a: "a = (m, w)" by (cases a)
  from Cons.prems(2) have mx: "m \<notin> fst ` set xs" and dx: "distinct (map fst xs)"
    by (simp_all add: a)
  show ?case
  proof (cases "(n, v) = (m, w)")
    case True
    then have nm: "m = n" "w = v" by simp_all
    have acc: "setMorph n v False s = Inr (True, storeMorph n v s)"
      by (rule setMorph_priority [OF Cons.prems(1,4,5,6)])
    have p1: "qualityPresets (quality (config (storeMorph n v s))) = Some p"
      using Cons.prems(1) by (simp add: storeMorph_fields)
    have nx: "n \<notin> fst ` set xs" using mx by (simp add: nm)
    from setEach_keeps [OF p1 nx, of "updates @ [n]" v]
    show ?thesis by (simp add: a nm acc storeMorph_fields)
  next
    case False
    with Cons.prems(3) have in_xs: "(n, v) \<in> set xs" by (auto simp: a)
    then have mn: "n \<noteq> m" using mx by force
    obtain accepted s1 where s1: "setMorph m w False s = Inr (accepted, s1)"
      and c1: "config s1 = config s" and m1: "morphMap s1 = morphMap s"
      and st1: "\<And>k. k \<noteq> m \<Longrightarrow> morphStates s1 k = morphStates s k"
      using setMorph_frame [OF Cons.prems(1), of m w] by blast
    have cv: "currentValueOf s1 n = currentValueOf s n"
      by (simp add: currentValueOf_def st1 [OF mn])
    have p1: "qualityPresets (quality (config s1)) = Some p"
      using Cons.prems(1) by (simp add: c1)
    have "\<exists>updates' s'.
        setEach xs (if accepted then updates @ [m] else updates) s1 = Inr (updates', s')
        \<and> n \<in> set updates' \<and> morphStates s' n = Some v \<and> config s' = config s1"
      using Cons.prems(4,5,6) by (intro Cons.IH [OF p1 dx in_xs]) (simp_all add: c1 m1 cv)
    then show ?thesis by (simp add: a s1 c1)
  qed
qed

lemma distinct_fst_insort_key:
  "distinct (map fst (insort_key f x xs)) \<longleftrightarrow> fst x \<notin> fst ` set xs \<and> distinct (map fst xs)"
  by (induction xs) (auto simp: set_insort_key)

lemma distinct_fst_sort_key:
  "distinct (map fst (sort_key f xs)) \<longleftrightarrow> distinct (map fst xs)"
  by (induction xs) (simp_all add: distinct_fst_insort_key)

lemma sortedEntries_props:
  "set (sortedEntries cfg morphData) = set morphData"
  "distinct (map fst (sortedEntries cfg morphData)) \<longleftrightarrow> distinct (keys morphData)"
  by (simp_all add: sortedEntries_def distinct_fst_sort_key keys_def)

lemma low_preset:
  "qualityPresets ''low''
   = Some \<lparr> morphUpdateThreshold = 5 / 100, maxActiveMorphs = 50,
            lodDistances = [2, 5, 10], updateFrequency = 3 \<rparr>"
  by (simp add: qualityPresets_def)

lemma distinct_ambient: "distinct (map ambient [a..<b])"
proof -
  have "inj ambient"
  proof (rule injI)
    fix i j assume "ambient i = ambient j"
    then have "length (ambient i) = length (ambient j)" by simp
    then show "i = j" by (simp add: ambient_def)
  qed
  then show ?thesis by (simp add: distinct_map inj_on_def)
qed

lemma fcard_ambientMorphs: "fcard ambientMorphs = 50"
proof -
  have "fcard ambientMorphs = card (set (map ambient [1..<51]))"
    unfolding ambientMorphs_def by (simp only: fcard.rep_eq fset_of_list.rep_eq)
  also have "\<dots> = length (map ambient [1..<51])"
    by (rule distinct_card [OF distinct_ambient])
  finally show ?thesis by simp
qed

lemma ambient_chars: "c \<in> set (ambient i) \<Longrightarrow> c = CHR ''x''"
  by (simp add: ambient_def)

lemma not_ambient:
  "''V_Open'' |\<notin>| ambientMorphs"
  "''Brow_Up'' |\<notin>| ambientMorphs"
proof -
  have a: "name |\<notin>| ambientMorphs" if "c \<in> set name" "c \<noteq> CHR ''x''" for name c
  proof
    assume "name |\<in>| ambientMorphs"
    then obtain i where "name = ambient i"
      by (auto simp: ambientMorphs_def fset_of_list.rep_eq)
    with that ambient_chars [of c i] show False by simp
  qed
  show "''V_Open'' |\<notin>| ambientMorphs" by (rule a [of "CHR ''V''"]) simp_all
  show "''Brow_Up'' |\<notin>| ambientMorphs" by (rule a [of "CHR ''B''"]) simp_all
qed

lemma crowded_fields:
  "quality (config crowded) = ''low''"
  "selectiveUpdates (config crowded)"
  "priorityMorphs (config crowded) = priorityMorphs defaultConfig"
  "''V_Open'' |\<in>| morphMap crowded"
  "''Brow_Up'' |\<in>| morphMap crowded"
  "currentValueOf crowded ''V_Open'' = 0"
  "currentValueOf crowded ''Brow_Up'' = 0"
  "fcard (activeMorphs crowded) = 50"
  "''Brow_Up'' |\<notin>| activeMorphs crowded"
  by (simp_all add: crowded_def defaultConfig_def currentValueOf_def fcard_ambientMorphs
      not_ambient)

lemma nonpriority_capped:
  assumes "qualityPresets (quality (config s)) = Some p"
    and "n |\<in>| morphMap s"
    and "n |\<notin>| priorityMorphs (config s)"
    and "n |\<notin>| activeMorphs s"
    and "0 < v"
    and "maxActiveMorphs p \<le> fcard (activeMorphs s)"
    and "selectiveUpdates (config s) \<longrightarrow> morphUpdateThreshold p \<le> \<bar>v - currentValueOf s n\<bar>"
  shows "setMorph n v False s = Inr (False, skipUpdate s)"
  using assms by (auto simp: setMorph_def checkActiveLimit_def Let_def)

lemma crowded_brow_rejected:
  "setMorph ''Brow_Up'' (1 / 2) False crowded = Inr (False, skipUpdate crowded)"
  by (rule nonpriority_capped [where p = "\<lparr> morphUpdateThreshold = 5 / 100, maxActiveMorphs = 50,
            lodDistances = [2, 5, 10], updateFrequency = 3 \<rparr>"])
    (simp_all add: crowded_fields low_preset defaultConfig_def)

text \<open>
  C1, as the code has it. A priority morph of the snapshot that is registered in the morph
  map, and whose new value differs from the stored one by at least the preset's update
  threshold (or selective updates are off), is accepted by \<open>setMorph\<close> and by the batch
  \<open>updateMorphs\<close>, whatever the number of active morphs, and \<open>shouldUpdateMorph\<close> is true
  for it. Nothing is assumed about \<open>activeMorphs\<close>: the cap does not apply to it.
\<close>

theorem priority_admitted:
  assumes "qualityPresets (quality (config s)) = Some p"
    and "distinct (keys morphData)"
    and "(n, v) \<in> set morphData"
    and "n |\<in>| morphMap s"
    and "n |\<in>| priorityMorphs (config s)"
    and "selectiveUpdates (config s) \<longrightarrow> morphUpdateThreshold p \<le> \<bar>v - currentValueOf s n\<bar>"
  shows "setMorph n v False s = Inr (True, storeMorph n v s)
       \<and> (\<exists>updates s'.
             setEach (sortedEntries (config s) morphData) [] s = Inr (updates, s')
             \<and> updateMorphs morphData s
               = Inr (length updates, s'\<lparr> activeMorphCount := fcard (activeMorphs s') \<rparr>)
             \<and> n \<in> set updates
             \<and> morphStates s' n = Some v
             \<and> shouldUpdateMorph n p s')"
proof -
  have d: "distinct (map fst (sortedEntries (config s) morphData))"
    and i: "(n, v) \<in> set (sortedEntries (config s) morphData)"
    using assms(2,3) by (simp_all add: sortedEntries_props)
  from setEach_priority [OF assms(1) d i assms(4,5,6), of "[]"]
  obtain updates s' where r: "setEach (sortedEntries (config s) morphData) [] s = Inr (updates, s')"
    and u: "n \<in> set updates" and v: "morphStates s' n = Some v" and c: "config s' = config s"
    by blast
  have "shouldUpdateMorph n p s'" using assms(5) by (simp add: shouldUpdateMorph_def c)
  moreover have "updateMorphs morphData s
      = Inr (length updates, s'\<lparr> activeMorphCount := fcard (activeMorphs s') \<rparr>)"
    by (simp add: updateMorphs_def r)
  ultimately show ?thesis
    using r u v setMorph_priority [OF assms(1,4,5,6)] by blast
qed

lemma lipsync_fields:
  "config lipsync = defaultConfig"
  "morphMap lipsync = {|''V_Open'', ''Brow_Up''|}"
  "currentValueOf lipsync n = 0"
  by (simp_all add: lipsync_def newMorphSystem_def currentValueOf_def)

lemma medium_preset:
  "qualityPresets ''medium''
   = Some \<lparr> morphUpdateThreshold = 1 / 100, maxActiveMorphs = 100,
            lodDistances = [3, 8, 15], updateFrequency = 2 \<rparr>"
  by (simp add: qualityPresets_def)

theorem priority_admitted_witness:
  "qualityPresets (quality (config crowded))
     = Some \<lparr> morphUpdateThreshold = 5 / 100, maxActiveMorphs = 50,
              lodDistances = [2, 5, 10], updateFrequency = 3 \<rparr>
   \<and> distinct (keys [(''Brow_Up'', 1 / 2), (''V_Open'', 1 / 2)])
   \<and> (''V_Open'', 1 / 2) \<in> set [(''Brow_Up'', 1 / 2), (''V_Open'', 1 / 2 :: real)]
   \<and> ''V_Open'' |\<in>| morphMap crowded
   \<and> ''V_Open'' |\<in>| priorityMorphs (config crowded)
   \<and> (5 / 100 :: real) \<le> \<bar>1 / 2 - currentValueOf crowded ''V_Open''\<bar>
   \<and> fcard (activeMorphs crowded) = 50
   \<and> setMorph ''Brow_Up'' (1 / 2) False crowded = Inr (False, skipUpdate crowded)
   \<and> setMorph ''V_Open'' (1 / 2) False crowded = Inr (True, storeMorph ''V_Open'' (1 / 2) crowded)
   \<and> (\<exists>updates s'. updateMorphs [(''Brow_Up'', 1 / 2), (''V_Open'', 1 / 2)] crowded
         = Inr (length updates, s'\<lparr> activeMorphCount := fcard (activeMorphs s') \<rparr>)
        \<and> ''V_Open'' \<in> set updates \<and> morphStates s' ''V_Open'' = Some (1 / 2))"
proof -
  let ?p = "\<lparr> morphUpdateThreshold = 5 / 100, maxActiveMorphs = 50,
              lodDistances = [2, 5, 10], updateFrequency = 3 \<rparr>"
  have h1: "qualityPresets (quality (config crowded)) = Some ?p"
    by (simp add: crowded_fields low_preset)
  have h2: "distinct (keys [(''Brow_Up'', 1 / 2), (''V_Open'', 1 / 2 :: real)])"
    by (simp add: keys_def)
  have h3: "(''V_Open'', 1 / 2) \<in> set [(''Brow_Up'', 1 / 2), (''V_Open'', 1 / 2 :: real)]"
    by simp
  have h4: "''V_Open'' |\<in>| morphMap crowded" by (simp add: crowded_fields)
  have h5: "''V_Open'' |\<in>| priorityMorphs (config crowded)"
    by (simp add: crowded_fields defaultConfig_def)
  have h6: "(5 / 100 :: real) \<le> \<bar>1 / 2 - currentValueOf crowded ''V_Open''\<bar>"
    by (simp add: crowded_fields)
  have h6': "selectiveUpdates (config crowded) \<longrightarrow>
      morphUpdateThreshold ?p \<le> \<bar>1 / 2 - currentValueOf crowded ''V_Open''\<bar>"
    using h6 by simp
  have full: "fcard (activeMorphs crowded) = 50" by (simp add: crowded_fields)
  from priority_admitted [OF h1 h2 h3 h4 h5 h6'] h1 h2 h3 h4 h5 h6 full crowded_brow_rejected
  show ?thesis by blast
qed

text \<open>
  The claim of C1 at a priority morph whose value changes by less than the threshold
  (medium preset, 0.01): \<open>setMorph\<close> skips it.
\<close>

theorem priority_admitted_counterexample:
  "''V_Open'' |\<in>| priorityMorphs (config lipsync)
   \<and> ''V_Open'' |\<in>| morphMap lipsync
   \<and> setMorph ''V_Open'' (1 / 200) False lipsync = Inr (False, skipUpdate lipsync)
   \<and> updateMorphs [(''V_Open'', 1 / 200)] lipsync
     = Inr (0, (skipUpdate lipsync)\<lparr> activeMorphCount := fcard (activeMorphs lipsync) \<rparr>)"
proof -
  have s: "setMorph ''V_Open'' (1 / 200) False lipsync = Inr (False, skipUpdate lipsync)"
    by (simp add: setMorph_def Let_def lipsync_fields medium_preset defaultConfig_def)
  have "sortedEntries (config lipsync) [(''V_Open'', 1 / 200)] = [(''V_Open'', 1 / 200)]"
    by (simp add: sortedEntries_def)
  then have "updateMorphs [(''V_Open'', 1 / 200)] lipsync
     = Inr (0, (skipUpdate lipsync)\<lparr> activeMorphCount := fcard (activeMorphs lipsync) \<rparr>)"
    by (simp add: updateMorphs_def s skipUpdate_def)
  with s show ?thesis by (simp add: lipsync_fields defaultConfig_def)
qed

section \<open>Quality adjustment\<close>

lemma setQuality_known:
  "q = ''low'' \<or> q = ''medium'' \<or> q = ''high'' \<or> q = ''ultra'' \<Longrightarrow>
   quality (config (setQuality q s)) = q"
  by (auto simp: setQuality_def qualityPresets_def)

lemma setQuality_unknown:
  "qualityPresets q = None \<Longrightarrow> setQuality q s = s"
  by (simp add: setQuality_def)

text \<open>
  C6, as the code has it. The adjustment callback sets the tier to low whenever the average
  fps is below 30, from whatever tier; it raises the tier only from low, to medium, when
  the average exceeds 55; otherwise, and when no average is available, nothing changes.
  So the tier never rises by more than one step, but it can fall by up to three.
\<close>

theorem adjustQuality_tier:
  "quality (config (adjustQuality (Some fps) s))
     = (if fps < 30 then ''low''
        else if fps > 55 \<and> quality (config s) = ''low'' then ''medium''
        else quality (config s))
   \<and> adjustQuality None s = s
   \<and> spec_tier (quality (config (adjustQuality avgFps s))) \<le> spec_tier (quality (config s)) + 1"
proof -
  have one: "quality (config (adjustQuality (Some f) s))
     = (if f < 30 then ''low''
        else if f > 55 \<and> quality (config s) = ''low'' then ''medium''
        else quality (config s))" for f
    by (simp add: adjustQuality_def setQuality_known)
  have none: "adjustQuality None s = s" by (simp add: adjustQuality_def)
  have "spec_tier (quality (config (adjustQuality avgFps s))) \<le> spec_tier (quality (config s)) + 1"
  proof (cases avgFps)
    case None
    then show ?thesis by (simp add: none)
  next
    case (Some f)
    show ?thesis unfolding Some one by (simp add: spec_tier_def)
  qed
  with one none show ?thesis by blast
qed

theorem adjustQuality_tier_witness:
  "quality (config (setQuality ''ultra'' lipsync)) = ''ultra''
   \<and> quality (config (adjustQuality (Some 20) (setQuality ''ultra'' lipsync))) = ''low''
   \<and> quality (config (adjustQuality (Some 60) (setQuality ''low'' lipsync))) = ''medium''
   \<and> quality (config (adjustQuality (Some 40) (setQuality ''ultra'' lipsync))) = ''ultra''"
  using adjustQuality_tier [of 20 "setQuality ''ultra'' lipsync"]
    adjustQuality_tier [of 60 "setQuality ''low'' lipsync"]
    adjustQuality_tier [of 40 "setQuality ''ultra'' lipsync"]
  by (simp add: setQuality_known)

text \<open>The claim of C6 at its own example: from high, one window at 20 fps gives low.\<close>

theorem one_step_counterexample:
  "quality (config (setQuality ''high'' lipsync)) = ''high''
   \<and> quality (config (adjustQuality (averageFps True [20]) (setQuality ''high'' lipsync))) = ''low''
   \<and> spec_tier ''high'' - spec_tier ''low'' = 2"
  by (simp add: averageFps_def adjustQuality_def setQuality_known spec_tier_def)

section \<open>Values are stored as received\<close>

lemma setMorph_accepted:
  "setMorph n v force s = Inr (True, s') \<Longrightarrow> s' = storeMorph n v s"
  by (auto simp: setMorph_def checkActiveLimit_def Let_def split: if_splits option.splits)

text \<open>
  C9, as the code has it. Neither the client nor \<open>setMorph\<close> clamps. For a keyframe or delta
  payload, the target value of each payload channel is the wire value, and so is the current
  value when interpolation is disabled; a value accepted by \<open>setMorph\<close> is stored unchanged.
  The stored value lies in \<open>[0,1]\<close> exactly when the wire value does. The one payload entry
  that is not stored is a delta entry named \<open>__proto__\<close> when the keyframe map does not hold
  that name.
\<close>

theorem stored_as_received:
  assumes "distinct (keys d)"
    and "(m, v) \<in> set d"
    and "ty = ''keyframe'' \<or> ty = ''delta''"
  shows "map_of (targetBlendshapes
            (handleBlendshapeUpdate now (Some \<lparr> ctype = ty, cdata = d \<rparr>) st)) m
         = (if ty = ''delta'' \<and> m = ''__proto__'' \<and> map_of (keyframeBlendshapes st) m = None
            then None else Some v)
       \<and> (\<not> enableInterpolation st \<longrightarrow>
            map_of (currentBlendshapes
              (handleBlendshapeUpdate now (Some \<lparr> ctype = ty, cdata = d \<rparr>) st)) m
            = (if ty = ''delta'' \<and> m = ''__proto__'' \<and> map_of (keyframeBlendshapes st) m = None
               then None else Some v))
       \<and> (\<forall>s s'. setMorph m v force s = Inr (True, s') \<longrightarrow> morphStates s' m = Some v)"
proof -
  let ?c = "\<lparr> ctype = ty, cdata = d \<rparr>"
  let ?r = "if ty = ''delta'' \<and> m = ''__proto__'' \<and> map_of (keyframeBlendshapes st) m = None
            then None else Some v"
  from assms(1,2) have l: "map_of d m = Some v" by (simp add: keys_def)
  have t: "map_of (targetBlendshapes (applyCompression ?c st)) m = ?r"
    using assms(3) l
    by (auto simp: applyCompression_def map_of_assignAll_distinct [OF assms(1)])
  have a: "map_of (targetBlendshapes (handleBlendshapeUpdate now (Some ?c) st)) m = ?r"
    using t
    by (cases "enableInterpolation st")
      (simp_all add: handleBlendshapeUpdate_enabled handleBlendshapeUpdate_disabled
        startInterpolation_def)
  have b: "map_of (currentBlendshapes (handleBlendshapeUpdate now (Some ?c) st)) m = ?r"
    if "\<not> enableInterpolation st"
    using t that by (simp add: handleBlendshapeUpdate_disabled)
  have c: "morphStates s' m = Some v" if "setMorph m v force s = Inr (True, s')" for s s'
    using setMorph_accepted [OF that] by (simp add: storeMorph_fields)
  from a b c show ?thesis by blast
qed

theorem stored_as_received_witness:
  "distinct (keys [(''A'', 3 / 2)])
   \<and> (''A'', 3 / 2) \<in> set [(''A'', 3 / 2 :: real)]
   \<and> \<not> enableInterpolation (newClient False)
   \<and> map_of (currentBlendshapes
        (handleBlendshapeUpdate 0 (Some \<lparr> ctype = ''keyframe'', cdata = [(''A'', 3 / 2)] \<rparr>)
           (newClient False))) ''A'' = Some (3 / 2)
   \<and> map_of (currentBlendshapes
        (handleBlendshapeUpdate 0 (Some \<lparr> ctype = ''delta'', cdata = [(''A'', 3 / 2)] \<rparr>)
           (newClient False))) ''A'' = Some (3 / 2)
   \<and> setMorph ''A'' (3 / 2) False (newMorphSystem defaultConfig {|''A''|})
      = Inr (True, storeMorph ''A'' (3 / 2) (newMorphSystem defaultConfig {|''A''|}))
   \<and> morphStates (storeMorph ''A'' (3 / 2) (newMorphSystem defaultConfig {|''A''|})) ''A''
      = Some (3 / 2)"
proof -
  have h: "distinct (keys [(''A'', 3 / 2 :: real)])"
    "(''A'', 3 / 2) \<in> set [(''A'', 3 / 2 :: real)]"
    by (simp_all add: keys_def)
  have k: "''keyframe'' = ''keyframe'' \<or> ''keyframe'' = ''delta''"
    and dl: "''delta'' = ''keyframe'' \<or> ''delta'' = ''delta''"
    by simp_all
  have e: "\<not> enableInterpolation (newClient False)" by (simp add: newClient_def)
  have sm: "setMorph ''A'' (3 / 2) False (newMorphSystem defaultConfig {|''A''|})
      = Inr (True, storeMorph ''A'' (3 / 2) (newMorphSystem defaultConfig {|''A''|}))"
    by (simp add: setMorph_def checkActiveLimit_def Let_def newMorphSystem_def defaultConfig_def
        medium_preset currentValueOf_def fcard_fempty)
  have w1: "map_of (currentBlendshapes
        (handleBlendshapeUpdate 0 (Some \<lparr> ctype = ''keyframe'', cdata = [(''A'', 3 / 2)] \<rparr>)
           (newClient False))) ''A'' = Some (3 / 2)"
    using stored_as_received [OF h k, of 0 "newClient False" False] e by simp
  have w2: "map_of (currentBlendshapes
        (handleBlendshapeUpdate 0 (Some \<lparr> ctype = ''delta'', cdata = [(''A'', 3 / 2)] \<rparr>)
           (newClient False))) ''A'' = Some (3 / 2)"
    using stored_as_received [OF h dl, of 0 "newClient False" False] e by simp
  have w3: "morphStates (storeMorph ''A'' (3 / 2) (newMorphSystem defaultConfig {|''A''|})) ''A''
      = Some (3 / 2)"
    using stored_as_received [OF h k, of 0 "newClient False" False] sm by blast
  from h e sm w1 w2 w3 show ?thesis by blast
qed

text \<open>The claim of C9 at the wire value 1.5: it is stored and reaches the output as 1.5.\<close>

theorem clamp_counterexample:
  "valueOf (targetBlendshapes (handleBlendshapeUpdate 0 (keyframe [(''A'', 3 / 2)])
      (newClient True))) ''A'' = 3 / 2
   \<and> valueOf (currentBlendshapes (updateInterpolation 33
        (handleBlendshapeUpdate 0 (keyframe [(''A'', 3 / 2)]) (newClient True)))) ''A'' = 3 / 2
   \<and> \<not> (3 / 2 \<le> (1 :: real))"
  by (simp add: handleBlendshapeUpdate_def keyframe_def applyCompression_def
      startInterpolation_def newClient_def updateInterpolation_def progress_def Let_def
      valueOf_simps)

end
